theory Spec2Isabelle
  imports Main "HOL-Library.AList"
begin

section \<open>The task registry of \<^verbatim>\<open>valuecell/core/task/manager.py\<close>\<close>

text \<open>
  \<^verbatim>\<open>TaskManager\<close> keeps a dictionary \<^verbatim>\<open>_tasks\<close> from task ids to \<^verbatim>\<open>Task\<close> objects.
  Python stores object references in the dictionary, and the transition methods of
  \<^verbatim>\<open>Task\<close> mutate the object in place, so the model has an explicit object store
  (\<open>heap\<close>) and a dictionary of references. The dictionary is an association list in
  insertion order, as a Python \<^verbatim>\<open>dict\<close> is; \<open>AList.update\<close> replaces the value of a
  key that is present where it stands and appends a new key at the end.
  The \<^verbatim>\<open>asyncio.Lock\<close> is not modelled: each operation is one atomic step on the state.
\<close>

subsection \<open>The Task entity (\<^verbatim>\<open>models.py\<close>)\<close>

datatype TaskStatus = PENDING | RUNNING | COMPLETED | FAILED | CANCELLED

type_synonym datetime = int

text \<open>The fields of a \<^verbatim>\<open>Task\<close> that the manager reads or writes.\<close>

record Task =
  task_id :: string
  conversation_id :: string
  status :: TaskStatus
  updated_at :: datetime

text \<open>
  The transition methods \<^verbatim>\<open>start()\<close>, \<^verbatim>\<open>complete()\<close>, \<^verbatim>\<open>fail(error_message)\<close> and
  \<^verbatim>\<open>cancel()\<close> are defined in \<^verbatim>\<open>models.py\<close>. They are parameters of the model:
  each one maps the object's fields before the call to its fields after the call.
\<close>

record Task_methods =
  start :: "Task \<Rightarrow> Task"
  complete :: "Task \<Rightarrow> Task"
  fail :: "string \<Rightarrow> Task \<Rightarrow> Task"
  cancel :: "Task \<Rightarrow> Task"

text \<open>
  Modelled from the spec: \<^verbatim>\<open>Task.is_finished()\<close> (in \<^verbatim>\<open>models.py\<close>), which
  ``reports whether status \<open>\<in>\<close> {COMPLETED, FAILED, CANCELLED}''.
\<close>

definition is_finished :: "Task \<Rightarrow> bool" where
  "is_finished t = (status t = COMPLETED \<or> status t = FAILED \<or> status t = CANCELLED)"

text \<open>
  Modelled from the spec: the contract of the transition methods of \<^verbatim>\<open>Task\<close>
  (in \<^verbatim>\<open>models.py\<close>). ``Each performs the corresponding status transition'', along the
  edges of the state machine: \<open>start\<close> from PENDING to RUNNING, and \<open>complete\<close>,
  \<open>fail\<close>, \<open>cancel\<close> from a status that is not finished to COMPLETED, FAILED, CANCELLED.
  Nothing is assumed about a method called outside its edge, nor about the other fields.
\<close>

definition transitions_ok :: "Task_methods \<Rightarrow> bool" where
  "transitions_ok M =
     (\<forall>t. (status t = PENDING \<longrightarrow> status (start M t) = RUNNING) \<and>
          (\<not> is_finished t \<longrightarrow> status (complete M t) = COMPLETED) \<and>
          (\<not> is_finished t \<longrightarrow> (\<forall>msg. status (fail M msg t) = FAILED)) \<and>
          (\<not> is_finished t \<longrightarrow> status (cancel M t) = CANCELLED))"

text \<open>
  Modelled from the spec: \<^verbatim>\<open>task_id\<close> is an ``opaque unique identifier, stable for the
  task's lifetime'', so no transition method of \<^verbatim>\<open>Task\<close> (in \<^verbatim>\<open>models.py\<close>) changes it.
\<close>

definition task_id_stable :: "Task_methods \<Rightarrow> bool" where
  "task_id_stable M =
     (\<forall>t. task_id (start M t) = task_id t \<and>
          task_id (complete M t) = task_id t \<and>
          (\<forall>msg. task_id (fail M msg t) = task_id t) \<and>
          task_id (cancel M t) = task_id t)"

subsection \<open>The state\<close>

type_synonym ref = nat

record state =
  heap :: "ref \<Rightarrow> Task"
  tasks :: "(string \<times> ref) list"

text \<open>\<^verbatim>\<open>__init__\<close>: an empty dictionary, whatever objects exist.\<close>

definition init :: "(ref \<Rightarrow> Task) \<Rightarrow> state" where
  "init h = \<lparr>heap = h, tasks = []\<rparr>"

text \<open>A method call \<^verbatim>\<open>task.f()\<close> mutating the object that \<open>task\<close> refers to.\<close>

definition call :: "(Task \<Rightarrow> Task) \<Rightarrow> ref \<Rightarrow> state \<Rightarrow> state" where
  "call f task s = s\<lparr>heap := (heap s)(task := f (heap s task))\<rparr>"

subsection \<open>The operations\<close>

text \<open>\<^verbatim>\<open>self._tasks[task.task_id] = task\<close>\<close>

definition update_task_no_lock :: "state \<Rightarrow> ref \<Rightarrow> state" where
  "update_task_no_lock s task =
     s\<lparr>tasks := AList.update (task_id (heap s task)) task (tasks s)\<rparr>"

text \<open>\<^verbatim>\<open>self._tasks.get(task_id)\<close>\<close>

definition get_task :: "state \<Rightarrow> string \<Rightarrow> ref option" where
  "get_task s tid = map_of (tasks s) tid"

text \<open>
  \<^verbatim>\<open>update_task\<close>: \<open>now\<close> is the value that \<^verbatim>\<open>datetime.now()\<close> returns inside the call.
\<close>

definition update_task :: "state \<Rightarrow> ref \<Rightarrow> datetime \<Rightarrow> state" where
  "update_task s task now =
     update_task_no_lock (call (\<lambda>t. t\<lparr>updated_at := now\<rparr>) task s) task"

text \<open>
  In the four operations below \<^verbatim>\<open>not task\<close> is true exactly when \<^verbatim>\<open>_get_task\<close>
  returned \<^verbatim>\<open>None\<close>: a \<^verbatim>\<open>Task\<close> object is truthy.
\<close>

definition start_task :: "Task_methods \<Rightarrow> state \<Rightarrow> string \<Rightarrow> bool \<times> state" where
  "start_task M s tid =
     (case get_task s tid of
        None \<Rightarrow> (False, s)
      | Some task \<Rightarrow>
          if status (heap s task) \<noteq> PENDING then (False, s)
          else (True, update_task_no_lock (call (start M) task s) task))"

definition complete_task :: "Task_methods \<Rightarrow> state \<Rightarrow> string \<Rightarrow> bool \<times> state" where
  "complete_task M s tid =
     (case get_task s tid of
        None \<Rightarrow> (False, s)
      | Some task \<Rightarrow>
          if is_finished (heap s task) then (False, s)
          else (True, update_task_no_lock (call (complete M) task s) task))"

definition fail_task :: "Task_methods \<Rightarrow> state \<Rightarrow> string \<Rightarrow> string \<Rightarrow> bool \<times> state" where
  "fail_task M s tid error_message =
     (case get_task s tid of
        None \<Rightarrow> (False, s)
      | Some task \<Rightarrow>
          if is_finished (heap s task) then (False, s)
          else (True, update_task_no_lock (call (fail M error_message) task s) task))"

definition cancel_task :: "Task_methods \<Rightarrow> state \<Rightarrow> string \<Rightarrow> bool \<times> state" where
  "cancel_task M s tid =
     (case get_task s tid of
        None \<Rightarrow> (False, s)
      | Some task \<Rightarrow>
          if is_finished (heap s task) then (False, s)
          else (True, update_task_no_lock (call (cancel M) task s) task))"

text \<open>
  The \<^verbatim>\<open>for\<close> loop of \<^verbatim>\<open>cancel_conversation_tasks\<close> over the list \<^verbatim>\<open>tasks\<close>, with the
  state and \<^verbatim>\<open>cancelled_count\<close> as accumulators. \<^verbatim>\<open>task.is_finished()\<close> reads the object
  as it is when the loop reaches it.
\<close>

fun cancel_loop :: "Task_methods \<Rightarrow> ref list \<Rightarrow> state \<Rightarrow> int \<Rightarrow> int \<times> state" where
  "cancel_loop M [] s cancelled_count = (cancelled_count, s)"
| "cancel_loop M (task # rest) s cancelled_count =
     (if \<not> is_finished (heap s task)
      then cancel_loop M rest (update_task_no_lock (call (cancel M) task s) task)
             (cancelled_count + 1)
      else cancel_loop M rest s cancelled_count)"

text \<open>
  The list comprehension takes the values of the dictionary, in its order, whose
  \<^verbatim>\<open>conversation_id\<close> is the one given; it is built before the loop starts.
\<close>

definition cancel_conversation_tasks :: "Task_methods \<Rightarrow> state \<Rightarrow> string \<Rightarrow> int \<times> state" where
  "cancel_conversation_tasks M s conv =
     cancel_loop M
       (filter (\<lambda>t. conversation_id (heap s t) = conv) (map snd (tasks s))) s 0"

subsection \<open>Observations and the invariant of the dictionary\<close>

text \<open>What a reader of the registry finds under a task id: the object stored there.\<close>

definition lookup :: "state \<Rightarrow> string \<Rightarrow> Task option" where
  "lookup s tid = map_option (heap s) (get_task s tid)"

definition task_ids :: "state \<Rightarrow> string set" where
  "task_ids s = set (map fst (tasks s))"

text \<open>
  A \<^verbatim>\<open>dict\<close> has each key once, and \<^verbatim>\<open>_update_task_no_lock\<close>, the only writer, files an
  object under its own \<^verbatim>\<open>task_id\<close>. The operations look a task up under the id they are
  given and write it back under \<^verbatim>\<open>task.task_id\<close>; the two keys are the same where this
  invariant holds.
\<close>

definition registry_ok :: "state \<Rightarrow> bool" where
  "registry_ok s = (distinct (map fst (tasks s)) \<and>
           (\<forall>(k, r) \<in> set (tasks s). task_id (heap s r) = k))"

text \<open>
  The states the registry can be in: \<^verbatim>\<open>__init__\<close>, then any of its operations, while the
  callers create \<^verbatim>\<open>Task\<close> objects and change their fields between the calls, but never
  the \<^verbatim>\<open>task_id\<close> of an object that the dictionary holds.
\<close>

inductive reachable :: "Task_methods \<Rightarrow> state \<Rightarrow> bool" for M :: Task_methods where
  reach_init: "reachable M (init h)"
| reach_update_task: "reachable M s \<Longrightarrow> reachable M (update_task s task now)"
| reach_start_task: "reachable M s \<Longrightarrow> reachable M (snd (start_task M s tid))"
| reach_complete_task: "reachable M s \<Longrightarrow> reachable M (snd (complete_task M s tid))"
| reach_fail_task: "reachable M s \<Longrightarrow> reachable M (snd (fail_task M s tid msg))"
| reach_cancel_task: "reachable M s \<Longrightarrow> reachable M (snd (cancel_task M s tid))"
| reach_cancel_conversation_tasks:
    "reachable M s \<Longrightarrow> reachable M (snd (cancel_conversation_tasks M s conv))"
| reach_caller:
    "reachable M s \<Longrightarrow> \<forall>r \<in> set (map snd (tasks s)). task_id (h r) = task_id (heap s r) \<Longrightarrow>
     reachable M (s\<lparr>heap := h\<rparr>)"

subsection \<open>A concrete registry\<close>

text \<open>
  Transition methods that set the status and advance the object's own timestamp, and the
  tasks of the two scenarios: T1 pending in conv-1, T2 pending and T3 completed in conv-2,
  registered at the clock readings 10, 11 and 12.
\<close>

definition scenario_methods :: Task_methods where
  "scenario_methods =
     \<lparr>start = (\<lambda>t. t\<lparr>status := RUNNING, updated_at := updated_at t + 1\<rparr>),
      complete = (\<lambda>t. t\<lparr>status := COMPLETED, updated_at := updated_at t + 1\<rparr>),
      fail = (\<lambda>msg t. t\<lparr>status := FAILED, updated_at := updated_at t + 1\<rparr>),
      cancel = (\<lambda>t. t\<lparr>status := CANCELLED, updated_at := updated_at t + 1\<rparr>)\<rparr>"

definition scenario_heap :: "ref \<Rightarrow> Task" where
  "scenario_heap =
     (\<lambda>r. \<lparr>task_id = ''T0'', conversation_id = ''conv-0'', status = PENDING, updated_at = 0\<rparr>)
     (101 := \<lparr>task_id = ''T1'', conversation_id = ''conv-1'', status = PENDING, updated_at = 0\<rparr>,
      102 := \<lparr>task_id = ''T2'', conversation_id = ''conv-2'', status = PENDING, updated_at = 0\<rparr>,
      103 := \<lparr>task_id = ''T3'', conversation_id = ''conv-2'', status = COMPLETED, updated_at = 0\<rparr>)"

definition scenario_state :: state where
  "scenario_state =
     update_task (update_task (update_task (init scenario_heap) 101 10) 102 11) 103 12"


section \<open>Properties\<close>

subsection \<open>Reading and writing one object\<close>

lemma heap_update_task_no_lock: "heap (update_task_no_lock s r) = heap s"
  by (simp add: update_task_no_lock_def)

lemma heap_write_back: "heap (update_task_no_lock (call f x s) x) = (heap s)(x := f (heap s x))"
  by (simp add: update_task_no_lock_def call_def)

lemma get_task_write_back:
  "get_task s tid = Some r \<Longrightarrow> get_task (update_task_no_lock (call f r s) r) tid = Some r"
  by (simp add: get_task_def update_task_no_lock_def call_def update_conv')

lemma lookup_write_back:
  "get_task s tid = Some r \<Longrightarrow>
   lookup (update_task_no_lock (call f r s) r) tid = Some (f (heap s r))"
  by (simp add: lookup_def get_task_write_back) (simp add: update_task_no_lock_def call_def)

lemma lookup_SomeD:
  "lookup s tid = Some t \<Longrightarrow> \<exists>r. get_task s tid = Some r \<and> heap s r = t"
  by (auto simp: lookup_def)

lemma get_task_entry: "get_task s tid = Some r \<Longrightarrow> (tid, r) \<in> set (tasks s)"
  by (simp add: get_task_def map_of_SomeD)

lemma not_finished_iff: "\<not> is_finished t \<longleftrightarrow> status t = PENDING \<or> status t = RUNNING"
  by (cases "status t") (simp_all add: is_finished_def)

subsection \<open>The concrete registry, evaluated\<close>

lemma scenario_transitions_ok: "transitions_ok scenario_methods"
  by (simp add: transitions_ok_def scenario_methods_def)

lemma scenario_task_id_stable: "task_id_stable scenario_methods"
  by (simp add: task_id_stable_def scenario_methods_def)

lemma scenario_tasks: "tasks scenario_state = [(''T1'', 101), (''T2'', 102), (''T3'', 103)]"
  by (simp add: scenario_state_def scenario_heap_def update_task_def update_task_no_lock_def
      call_def init_def)

lemma scenario_objects:
  "heap scenario_state 101 =
     \<lparr>task_id = ''T1'', conversation_id = ''conv-1'', status = PENDING, updated_at = 10\<rparr>"
  "heap scenario_state 102 =
     \<lparr>task_id = ''T2'', conversation_id = ''conv-2'', status = PENDING, updated_at = 11\<rparr>"
  "heap scenario_state 103 =
     \<lparr>task_id = ''T3'', conversation_id = ''conv-2'', status = COMPLETED, updated_at = 12\<rparr>"
  by (simp_all add: scenario_state_def scenario_heap_def update_task_def update_task_no_lock_def
      call_def init_def)

lemma scenario_registry_ok: "registry_ok scenario_state"
  by (simp add: registry_ok_def scenario_tasks scenario_objects)

lemma scenario_lookup:
  "lookup scenario_state ''T1'' = Some (heap scenario_state 101)"
  "lookup scenario_state ''T2'' = Some (heap scenario_state 102)"
  "lookup scenario_state ''T3'' = Some (heap scenario_state 103)"
  "lookup scenario_state ''T9'' = None"
  by (simp_all add: lookup_def get_task_def scenario_tasks)

lemmas scenario_eval =
  scenario_lookup scenario_objects scenario_tasks scenario_methods_def is_finished_def

lemma scenario_batch_count:
  "fst (cancel_conversation_tasks scenario_methods scenario_state ''conv-2'') = 1"
  by (simp add: cancel_conversation_tasks_def scenario_eval call_def update_task_no_lock_def)

subsection \<open>\<^verbatim>\<open>start_task\<close>\<close>

lemma start_task_success:
  "fst (start_task M s tid) \<longleftrightarrow> (\<exists>t. lookup s tid = Some t \<and> status t = PENDING)"
  by (auto simp: start_task_def lookup_def split: option.splits)

lemma start_task_failure: "\<not> fst (start_task M s tid) \<Longrightarrow> snd (start_task M s tid) = s"
  by (auto simp: start_task_def split: option.splits if_splits)

lemma start_task_result:
  "fst (start_task M s tid) \<Longrightarrow>
   \<exists>t. lookup s tid = Some t \<and> status t = PENDING \<and>
       lookup (snd (start_task M s tid)) tid = Some (start M t)"
  by (auto simp: start_task_def lookup_write_back split: option.splits if_splits)
     (simp add: lookup_def)

text \<open>
  Claim C2. \<^verbatim>\<open>start_task\<close> returns true exactly when a task is registered under the id
  and its status is PENDING. After a success the task found under the id is RUNNING (the
  \<^verbatim>\<open>start()\<close> method does that on a PENDING task). After a failure, which is the
  result for a missing id and for every status other than PENDING, the state is the one
  before the call. A second call right after the first always fails.
\<close>

theorem start_task_spec:
  assumes "transitions_ok M"
  shows "(fst (start_task M s tid) \<longleftrightarrow> (\<exists>t. lookup s tid = Some t \<and> status t = PENDING)) \<and>
         (fst (start_task M s tid) \<longrightarrow>
            (\<exists>t. lookup s tid = Some t \<and>
                 lookup (snd (start_task M s tid)) tid = Some (start M t) \<and>
                 status (start M t) = RUNNING)) \<and>
         (\<not> fst (start_task M s tid) \<longrightarrow> snd (start_task M s tid) = s) \<and>
         \<not> fst (start_task M (snd (start_task M s tid)) tid)"
proof -
  have running: "\<exists>t. lookup s tid = Some t \<and>
      lookup (snd (start_task M s tid)) tid = Some (start M t) \<and> status (start M t) = RUNNING"
    if "fst (start_task M s tid)"
  proof -
    from start_task_result [OF that] obtain t where
      "lookup s tid = Some t" "status t = PENDING"
      "lookup (snd (start_task M s tid)) tid = Some (start M t)"
      by blast
    with assms show ?thesis by (simp add: transitions_ok_def)
  qed
  have again: "\<not> fst (start_task M (snd (start_task M s tid)) tid)"
  proof (cases "fst (start_task M s tid)")
    case True
    from running [OF True] obtain t where
      "lookup (snd (start_task M s tid)) tid = Some (start M t)" "status (start M t) = RUNNING"
      by blast
    then show ?thesis
      by (simp add: start_task_success)
  next
    case False
    then show ?thesis by (simp add: start_task_failure)
  qed
  show ?thesis
    using running again start_task_success [of M s tid] start_task_failure [of M s tid]
    by blast
qed

theorem start_task_spec_witness:
  "transitions_ok scenario_methods \<and>
   fst (start_task scenario_methods scenario_state ''T1'') \<and>
   (\<exists>t'. lookup (snd (start_task scenario_methods scenario_state ''T1'')) ''T1'' = Some t' \<and>
         status t' = RUNNING) \<and>
   \<not> fst (start_task scenario_methods
           (snd (start_task scenario_methods scenario_state ''T1'')) ''T1'') \<and>
   \<not> fst (start_task scenario_methods scenario_state ''T3'') \<and>
   snd (start_task scenario_methods scenario_state ''T3'') = scenario_state"
proof -
  have pending: "\<exists>t. lookup scenario_state ''T1'' = Some t \<and> status t = PENDING"
    by (simp add: scenario_eval)
  have completed: "\<not> (\<exists>t. lookup scenario_state ''T3'' = Some t \<and> status t = PENDING)"
    by (simp add: scenario_eval)
  from start_task_spec [OF scenario_transitions_ok, of scenario_state "''T1''"]
    start_task_spec [OF scenario_transitions_ok, of scenario_state "''T3''"]
    pending completed scenario_transitions_ok
  show ?thesis by blast
qed

subsection \<open>\<^verbatim>\<open>complete_task\<close>, \<^verbatim>\<open>fail_task\<close>, \<^verbatim>\<open>cancel_task\<close>\<close>

lemma complete_task_success:
  "fst (complete_task M s tid) \<longleftrightarrow> (\<exists>t. lookup s tid = Some t \<and> \<not> is_finished t)"
  by (auto simp: complete_task_def lookup_def split: option.splits)

lemma complete_task_failure:
  "\<not> fst (complete_task M s tid) \<Longrightarrow> snd (complete_task M s tid) = s"
  by (auto simp: complete_task_def split: option.splits if_splits)

lemma complete_task_result:
  "fst (complete_task M s tid) \<Longrightarrow>
   \<exists>t. lookup s tid = Some t \<and> \<not> is_finished t \<and>
       lookup (snd (complete_task M s tid)) tid = Some (complete M t)"
  by (auto simp: complete_task_def lookup_write_back split: option.splits if_splits)
     (simp add: lookup_def)

lemma fail_task_success:
  "fst (fail_task M s tid msg) \<longleftrightarrow> (\<exists>t. lookup s tid = Some t \<and> \<not> is_finished t)"
  by (auto simp: fail_task_def lookup_def split: option.splits)

lemma fail_task_failure:
  "\<not> fst (fail_task M s tid msg) \<Longrightarrow> snd (fail_task M s tid msg) = s"
  by (auto simp: fail_task_def split: option.splits if_splits)

lemma fail_task_result:
  "fst (fail_task M s tid msg) \<Longrightarrow>
   \<exists>t. lookup s tid = Some t \<and> \<not> is_finished t \<and>
       lookup (snd (fail_task M s tid msg)) tid = Some (fail M msg t)"
  by (auto simp: fail_task_def lookup_write_back split: option.splits if_splits)
     (simp add: lookup_def)

lemma cancel_task_success:
  "fst (cancel_task M s tid) \<longleftrightarrow> (\<exists>t. lookup s tid = Some t \<and> \<not> is_finished t)"
  by (auto simp: cancel_task_def lookup_def split: option.splits)

lemma cancel_task_failure:
  "\<not> fst (cancel_task M s tid) \<Longrightarrow> snd (cancel_task M s tid) = s"
  by (auto simp: cancel_task_def split: option.splits if_splits)

lemma cancel_task_result:
  "fst (cancel_task M s tid) \<Longrightarrow>
   \<exists>t. lookup s tid = Some t \<and> \<not> is_finished t \<and>
       lookup (snd (cancel_task M s tid)) tid = Some (cancel M t)"
  by (auto simp: cancel_task_def lookup_write_back split: option.splits if_splits)
     (simp add: lookup_def)

text \<open>
  Claim C1. Each of \<^verbatim>\<open>complete_task\<close>, \<^verbatim>\<open>fail_task\<close> and \<^verbatim>\<open>cancel_task\<close> returns true
  exactly when a task is registered under the id and \<^verbatim>\<open>is_finished()\<close> is false for it.
  After a success the task found under the id is COMPLETED, FAILED or CANCELLED; after a
  failure the state is the one before the call. A task that is PENDING or RUNNING is
  accepted by all three.
\<close>

theorem finish_ops_spec:
  assumes "transitions_ok M"
  shows "(fst (complete_task M s tid) \<longleftrightarrow> (\<exists>t. lookup s tid = Some t \<and> \<not> is_finished t)) \<and>
         (fst (complete_task M s tid) \<longrightarrow>
            (\<exists>t. lookup s tid = Some t \<and>
                 lookup (snd (complete_task M s tid)) tid = Some (complete M t) \<and>
                 status (complete M t) = COMPLETED)) \<and>
         (\<not> fst (complete_task M s tid) \<longrightarrow> snd (complete_task M s tid) = s) \<and>
         (fst (fail_task M s tid msg) \<longleftrightarrow> (\<exists>t. lookup s tid = Some t \<and> \<not> is_finished t)) \<and>
         (fst (fail_task M s tid msg) \<longrightarrow>
            (\<exists>t. lookup s tid = Some t \<and>
                 lookup (snd (fail_task M s tid msg)) tid = Some (fail M msg t) \<and>
                 status (fail M msg t) = FAILED)) \<and>
         (\<not> fst (fail_task M s tid msg) \<longrightarrow> snd (fail_task M s tid msg) = s) \<and>
         (fst (cancel_task M s tid) \<longleftrightarrow> (\<exists>t. lookup s tid = Some t \<and> \<not> is_finished t)) \<and>
         (fst (cancel_task M s tid) \<longrightarrow>
            (\<exists>t. lookup s tid = Some t \<and>
                 lookup (snd (cancel_task M s tid)) tid = Some (cancel M t) \<and>
                 status (cancel M t) = CANCELLED)) \<and>
         (\<not> fst (cancel_task M s tid) \<longrightarrow> snd (cancel_task M s tid) = s) \<and>
         (\<forall>t. lookup s tid = Some t \<and> (status t = PENDING \<or> status t = RUNNING) \<longrightarrow>
            fst (complete_task M s tid) \<and> fst (fail_task M s tid msg) \<and>
            fst (cancel_task M s tid))"
proof -
  have c: "\<exists>t. lookup s tid = Some t \<and>
      lookup (snd (complete_task M s tid)) tid = Some (complete M t) \<and> status (complete M t) = COMPLETED"
    if "fst (complete_task M s tid)"
    using complete_task_result [OF that] assms by (auto simp: transitions_ok_def)
  have f: "\<exists>t. lookup s tid = Some t \<and>
      lookup (snd (fail_task M s tid msg)) tid = Some (fail M msg t) \<and> status (fail M msg t) = FAILED"
    if "fst (fail_task M s tid msg)"
    using fail_task_result [OF that] assms by (auto simp: transitions_ok_def)
  have x: "\<exists>t. lookup s tid = Some t \<and>
      lookup (snd (cancel_task M s tid)) tid = Some (cancel M t) \<and> status (cancel M t) = CANCELLED"
    if "fst (cancel_task M s tid)"
    using cancel_task_result [OF that] assms by (auto simp: transitions_ok_def)
  have open_status: "fst (complete_task M s tid) \<and> fst (fail_task M s tid msg) \<and>
      fst (cancel_task M s tid)"
    if "lookup s tid = Some t" "status t = PENDING \<or> status t = RUNNING" for t
    using that by (auto simp: complete_task_success fail_task_success cancel_task_success
        not_finished_iff)
  show ?thesis
    using c f x open_status
      complete_task_success [of M s tid] complete_task_failure [of M s tid]
      fail_task_success [of M s tid msg] fail_task_failure [of M s tid msg]
      cancel_task_success [of M s tid] cancel_task_failure [of M s tid]
    by blast
qed

theorem finish_ops_spec_witness:
  "transitions_ok scenario_methods \<and>
   fst (complete_task scenario_methods scenario_state ''T2'') \<and>
   (\<exists>t'. lookup (snd (complete_task scenario_methods scenario_state ''T2'')) ''T2'' = Some t' \<and>
         status t' = COMPLETED) \<and>
   fst (fail_task scenario_methods scenario_state ''T2'' ''boom'') \<and>
   (\<exists>t'. lookup (snd (fail_task scenario_methods scenario_state ''T2'' ''boom'')) ''T2'' = Some t' \<and>
         status t' = FAILED) \<and>
   fst (cancel_task scenario_methods scenario_state ''T2'') \<and>
   (\<exists>t'. lookup (snd (cancel_task scenario_methods scenario_state ''T2'')) ''T2'' = Some t' \<and>
         status t' = CANCELLED) \<and>
   \<not> fst (complete_task scenario_methods scenario_state ''T3'') \<and>
   snd (complete_task scenario_methods scenario_state ''T3'') = scenario_state \<and>
   \<not> fst (fail_task scenario_methods scenario_state ''T3'' ''boom'') \<and>
   snd (fail_task scenario_methods scenario_state ''T3'' ''boom'') = scenario_state \<and>
   \<not> fst (cancel_task scenario_methods scenario_state ''T3'') \<and>
   snd (cancel_task scenario_methods scenario_state ''T3'') = scenario_state"
proof -
  have pending: "\<exists>t. lookup scenario_state ''T2'' = Some t \<and> \<not> is_finished t"
    by (simp add: scenario_eval)
  have completed: "\<not> (\<exists>t. lookup scenario_state ''T3'' = Some t \<and> \<not> is_finished t)"
    by (simp add: scenario_eval)
  from finish_ops_spec [OF scenario_transitions_ok, of scenario_state "''T2''" "''boom''"]
    finish_ops_spec [OF scenario_transitions_ok, of scenario_state "''T3''" "''boom''"]
    pending completed scenario_transitions_ok
  show ?thesis by blast
qed

subsection \<open>The invariant of the dictionary\<close>

lemma registry_ok_key:
  "registry_ok s \<Longrightarrow> get_task s tid = Some r \<Longrightarrow> task_id (heap s r) = tid"
  by (auto simp: registry_ok_def get_task_def dest: map_of_SomeD)

lemma registry_ok_get_task:
  "registry_ok s \<Longrightarrow> (k, r) \<in> set (tasks s) \<Longrightarrow> get_task s k = Some r"
  by (simp add: registry_ok_def get_task_def)

lemma registry_ok_entry:
  "registry_ok s \<Longrightarrow> (k, r) \<in> set (tasks s) \<Longrightarrow> task_id (heap s r) = k"
  by (auto simp: registry_ok_def)

lemma registry_ok_call:
  assumes "registry_ok s" "task_id (f (heap s r)) = task_id (heap s r)"
  shows "registry_ok (call f r s)"
  using assms by (auto simp: registry_ok_def call_def)

lemma registry_ok_distinct_refs: "registry_ok s \<Longrightarrow> distinct (map snd (tasks s))"
proof -
  assume ok: "registry_ok s"
  have "inj_on snd (set (tasks s))"
  proof (rule inj_onI)
    fix p q assume pq: "p \<in> set (tasks s)" "q \<in> set (tasks s)" "snd p = snd q"
    obtain k r where p: "p = (k, r)" by (cases p)
    obtain k' r' where q: "q = (k', r')" by (cases q)
    from pq p q have "task_id (heap s r) = k" "task_id (heap s r') = k'" "r = r'"
      using registry_ok_entry [OF ok] by auto
    with p q show "p = q" by simp
  qed
  moreover have "distinct (tasks s)"
    using ok by (simp add: registry_ok_def distinct_map)
  ultimately show ?thesis
    by (simp add: distinct_map)
qed

lemma write_back_same:
  assumes "registry_ok s" "(k, r) \<in> set (tasks s)"
    "task_id (f (heap s r)) = task_id (heap s r)"
  shows "update_task_no_lock (call f r s) r = call f r s"
proof -
  have "task_id (heap s r) = k"
    using assms(1,2) by (rule registry_ok_entry)
  moreover have "map_of (tasks s) k = Some r"
    using registry_ok_get_task [OF assms(1,2)] by (simp add: get_task_def)
  ultimately have "AList.update (task_id (f (heap s r))) r (tasks s) = tasks s"
    using assms(3) by (simp add: update_triv)
  then show ?thesis
    by (simp add: update_task_no_lock_def call_def)
qed

lemma lookup_call:
  assumes "registry_ok s" "get_task s tid' = Some r"
  shows "lookup (call f r s) tid = (if tid = tid' then Some (f (heap s r)) else lookup s tid)"
proof (cases "tid = tid'")
  case True
  with assms(2) show ?thesis
    by (simp add: lookup_def get_task_def call_def)
next
  case False
  have "r' \<noteq> r" if "get_task s tid = Some r'" for r'
    using registry_ok_key [OF assms(1) that] registry_ok_key [OF assms] False by auto
  with False show ?thesis
    by (cases "get_task s tid") (simp_all add: lookup_def get_task_def call_def)
qed

lemma lookup_entry:
  "registry_ok s \<Longrightarrow> (\<exists>t. lookup s k = Some t \<and> P t) \<longleftrightarrow> (\<exists>r. (k, r) \<in> set (tasks s) \<and> P (heap s r))"
  by (auto simp: lookup_def registry_ok_get_task dest: get_task_entry)

lemma count_entries:
  assumes "registry_ok s"
  shows "length (filter (\<lambda>(k, r). P (heap s r)) (tasks s)) =
         card {tid. \<exists>t. lookup s tid = Some t \<and> P t}"
proof -
  let ?xs = "filter (\<lambda>(k, r). P (heap s r)) (tasks s)"
  have "distinct (map fst ?xs)"
    using assms by (simp add: registry_ok_def distinct_map_filter)
  then have "card (set (map fst ?xs)) = length (map fst ?xs)"
    by (rule distinct_card)
  then have "length ?xs = card (set (map fst ?xs))"
    by (simp only: length_map)
  moreover have "set (map fst ?xs) = {tid. \<exists>t. lookup s tid = Some t \<and> P t}"
    using lookup_entry [OF assms, of _ P] by force
  ultimately show ?thesis by simp
qed

text \<open>
  With the invariant, and methods that leave the \<^verbatim>\<open>task_id\<close> alone, the write-back of
  each operation puts the object where it already is: only the object changes.
\<close>

lemma start_task_state:
  assumes "task_id_stable M" "registry_ok s"
  shows "snd (start_task M s tid) =
     (case get_task s tid of None \<Rightarrow> s
      | Some r \<Rightarrow> if status (heap s r) \<noteq> PENDING then s else call (start M) r s)"
proof (cases "get_task s tid")
  case None
  then show ?thesis by (simp add: start_task_def)
next
  case (Some r)
  have "task_id (start M (heap s r)) = task_id (heap s r)"
    using assms(1) by (simp add: task_id_stable_def)
  with assms(2) Some have "update_task_no_lock (call (start M) r s) r = call (start M) r s"
    by (intro write_back_same [where k = tid]) (simp_all add: get_task_entry)
  with Some show ?thesis by (simp add: start_task_def)
qed

lemma complete_task_state:
  assumes "task_id_stable M" "registry_ok s"
  shows "snd (complete_task M s tid) =
     (case get_task s tid of None \<Rightarrow> s
      | Some r \<Rightarrow> if is_finished (heap s r) then s else call (complete M) r s)"
proof (cases "get_task s tid")
  case None
  then show ?thesis by (simp add: complete_task_def)
next
  case (Some r)
  have "task_id (complete M (heap s r)) = task_id (heap s r)"
    using assms(1) by (simp add: task_id_stable_def)
  with assms(2) Some have "update_task_no_lock (call (complete M) r s) r = call (complete M) r s"
    by (intro write_back_same [where k = tid]) (simp_all add: get_task_entry)
  with Some show ?thesis by (simp add: complete_task_def)
qed

lemma fail_task_state:
  assumes "task_id_stable M" "registry_ok s"
  shows "snd (fail_task M s tid msg) =
     (case get_task s tid of None \<Rightarrow> s
      | Some r \<Rightarrow> if is_finished (heap s r) then s else call (fail M msg) r s)"
proof (cases "get_task s tid")
  case None
  then show ?thesis by (simp add: fail_task_def)
next
  case (Some r)
  have "task_id (fail M msg (heap s r)) = task_id (heap s r)"
    using assms(1) by (simp add: task_id_stable_def)
  with assms(2) Some have "update_task_no_lock (call (fail M msg) r s) r = call (fail M msg) r s"
    by (intro write_back_same [where k = tid]) (simp_all add: get_task_entry)
  with Some show ?thesis by (simp add: fail_task_def)
qed

lemma cancel_task_state:
  assumes "task_id_stable M" "registry_ok s"
  shows "snd (cancel_task M s tid) =
     (case get_task s tid of None \<Rightarrow> s
      | Some r \<Rightarrow> if is_finished (heap s r) then s else call (cancel M) r s)"
proof (cases "get_task s tid")
  case None
  then show ?thesis by (simp add: cancel_task_def)
next
  case (Some r)
  have "task_id (cancel M (heap s r)) = task_id (heap s r)"
    using assms(1) by (simp add: task_id_stable_def)
  with assms(2) Some have "update_task_no_lock (call (cancel M) r s) r = call (cancel M) r s"
    by (intro write_back_same [where k = tid]) (simp_all add: get_task_entry)
  with Some show ?thesis by (simp add: cancel_task_def)
qed

text \<open>
  The invariant holds after \<^verbatim>\<open>__init__\<close> and every operation keeps it, so it holds in
  every state the registry reaches.
\<close>

lemma entries_update: "set (AList.update k v al) \<subseteq> insert (k, v) (set al)"
  by (induction al) auto

lemma registry_ok_init: "registry_ok (init h)"
  by (simp add: registry_ok_def init_def)

lemma registry_ok_heap:
  assumes "registry_ok s" "\<forall>r \<in> set (map snd (tasks s)). task_id (h r) = task_id (heap s r)"
  shows "registry_ok (s\<lparr>heap := h\<rparr>)"
  using assms by (force simp: registry_ok_def)

lemma registry_ok_update_task:
  assumes "registry_ok s"
  shows "registry_ok (update_task s r now)"
proof -
  let ?h = "(heap s)(r := (heap s r)\<lparr>updated_at := now\<rparr>)"
  let ?al = "AList.update (task_id (heap s r)) r (tasks s)"
  have ids: "task_id (?h x) = task_id (heap s x)" for x
    by simp
  have "distinct (map fst ?al)"
    using assms by (simp add: registry_ok_def distinct_update)
  moreover have "task_id (?h x) = k" if "(k, x) \<in> set ?al" for k x
  proof -
    from that entries_update [of "task_id (heap s r)" r "tasks s"]
    have "(k, x) = (task_id (heap s r), r) \<or> (k, x) \<in> set (tasks s)"
      by auto
    with assms show ?thesis
      by (auto simp: registry_ok_def)
  qed
  moreover have "heap (update_task s r now) = ?h" "tasks (update_task s r now) = ?al"
    by (simp_all add: update_task_def update_task_no_lock_def call_def)
  ultimately show ?thesis
    unfolding registry_ok_def by (auto simp del: fun_upd_apply)
qed

lemma registry_ok_start_task:
  assumes "task_id_stable M" "registry_ok s"
  shows "registry_ok (snd (start_task M s tid))"
proof -
  have "task_id (start M t) = task_id t" for t
    using assms(1) by (simp add: task_id_stable_def)
  with assms(2) show ?thesis
    by (simp add: start_task_state [OF assms] registry_ok_call split: option.splits)
qed

lemma registry_ok_complete_task:
  assumes "task_id_stable M" "registry_ok s"
  shows "registry_ok (snd (complete_task M s tid))"
proof -
  have "task_id (complete M t) = task_id t" for t
    using assms(1) by (simp add: task_id_stable_def)
  with assms(2) show ?thesis
    by (simp add: complete_task_state [OF assms] registry_ok_call split: option.splits)
qed

lemma registry_ok_fail_task:
  assumes "task_id_stable M" "registry_ok s"
  shows "registry_ok (snd (fail_task M s tid msg))"
proof -
  have "task_id (fail M msg t) = task_id t" for t
    using assms(1) by (simp add: task_id_stable_def)
  with assms(2) show ?thesis
    by (simp add: fail_task_state [OF assms] registry_ok_call split: option.splits)
qed

lemma registry_ok_cancel_task:
  assumes "task_id_stable M" "registry_ok s"
  shows "registry_ok (snd (cancel_task M s tid))"
proof -
  have "task_id (cancel M t) = task_id t" for t
    using assms(1) by (simp add: task_id_stable_def)
  with assms(2) show ?thesis
    by (simp add: cancel_task_state [OF assms] registry_ok_call split: option.splits)
qed

subsection \<open>The loop of \<^verbatim>\<open>cancel_conversation_tasks\<close>\<close>

text \<open>In any state: what the loop leaves alone, and what it leaves finished.\<close>

lemma cancel_loop_finished_untouched:
  "is_finished (heap s r) \<Longrightarrow> heap (snd (cancel_loop M rs s n)) r = heap s r"
proof (induction rs arbitrary: s n)
  case Nil
  then show ?case by simp
next
  case (Cons x rs)
  show ?case
  proof (cases "is_finished (heap s x)")
    case True
    with Cons show ?thesis by simp
  next
    case False
    let ?s1 = "update_task_no_lock (call (cancel M) x s) x"
    from False Cons.prems have "r \<noteq> x" by auto
    then have same: "heap ?s1 r = heap s r"
      by (simp add: heap_write_back)
    with Cons.prems have "heap (snd (cancel_loop M rs ?s1 (n + 1))) r = heap ?s1 r"
      by (intro Cons.IH) simp
    with False same show ?thesis by simp
  qed
qed

lemma cancel_loop_outside_untouched:
  "r \<notin> set rs \<Longrightarrow> heap (snd (cancel_loop M rs s n)) r = heap s r"
proof (induction rs arbitrary: s n)
  case Nil
  then show ?case by simp
next
  case (Cons x rs)
  then show ?case
    by (simp add: heap_write_back)
qed

lemma cancel_loop_all_finished:
  assumes "transitions_ok M"
  shows "r \<in> set rs \<Longrightarrow> is_finished (heap (snd (cancel_loop M rs s n)) r)"
proof (induction rs arbitrary: s n)
  case Nil
  then show ?case by simp
next
  case (Cons x rs)
  let ?s1 = "update_task_no_lock (call (cancel M) x s) x"
  show ?case
  proof (cases "is_finished (heap s x)")
    case True
    show ?thesis
    proof (cases "r = x")
      case True
      with \<open>is_finished (heap s x)\<close> show ?thesis
        by (simp add: cancel_loop_finished_untouched)
    next
      case False
      with Cons.prems have "r \<in> set rs" by simp
      with True show ?thesis by (simp add: Cons.IH)
    qed
  next
    case False
    then have "status (cancel M (heap s x)) = CANCELLED"
      using assms by (simp add: transitions_ok_def)
    then have fin: "is_finished (heap ?s1 x)"
      by (simp add: heap_write_back is_finished_def)
    show ?thesis
    proof (cases "r = x")
      case True
      with fin have "heap (snd (cancel_loop M rs ?s1 (n + 1))) r = heap ?s1 r"
        by (simp add: cancel_loop_finished_untouched)
      with fin True \<open>\<not> is_finished (heap s x)\<close> show ?thesis by simp
    next
      case False
      with Cons.prems have "r \<in> set rs" by simp
      with \<open>\<not> is_finished (heap s x)\<close> show ?thesis by (simp add: Cons.IH)
    qed
  qed
qed

lemma values_update: "snd ` set (AList.update k v al) \<subseteq> insert v (snd ` set al)"
  by (induction al) auto

lemma cancel_loop_values:
  "snd ` set (tasks (snd (cancel_loop M rs s n))) \<subseteq> snd ` set (tasks s) \<union> set rs"
proof (induction rs arbitrary: s n)
  case Nil
  then show ?case by simp
next
  case (Cons x rs)
  let ?s1 = "update_task_no_lock (call (cancel M) x s) x"
  have step: "snd ` set (tasks ?s1) \<subseteq> insert x (snd ` set (tasks s))"
    by (simp add: update_task_no_lock_def call_def values_update)
  show ?case
  proof (cases "is_finished (heap s x)")
    case True
    with Cons.IH [of s n] show ?thesis by auto
  next
    case False
    then have "snd ` set (tasks (snd (cancel_loop M (x # rs) s n))) =
        snd ` set (tasks (snd (cancel_loop M rs ?s1 (n + 1))))"
      by simp
    also have "\<dots> \<subseteq> snd ` set (tasks ?s1) \<union> set rs"
      by (rule Cons.IH)
    also have "\<dots> \<subseteq> snd ` set (tasks s) \<union> set (x # rs)"
      using step by auto
    finally show ?thesis .
  qed
qed

lemma cancel_loop_noop:
  "\<forall>r \<in> set rs. is_finished (heap s r) \<Longrightarrow> cancel_loop M rs s n = (n, s)"
  by (induction rs arbitrary: s n) simp_all

lemma cancel_loop_objects:
  assumes "transitions_ok M"
  shows "heap (snd (cancel_loop M rs s n)) r = heap s r \<or>
         heap (snd (cancel_loop M rs s n)) r = cancel M (heap s r)"
proof (induction rs arbitrary: s n)
  case Nil
  then show ?case by simp
next
  case (Cons x rs)
  let ?s1 = "update_task_no_lock (call (cancel M) x s) x"
  show ?case
  proof (cases "is_finished (heap s x)")
    case True
    with Cons.IH [of s n] show ?thesis by simp
  next
    case False
    then have "status (cancel M (heap s x)) = CANCELLED"
      using assms by (simp add: transitions_ok_def)
    then have fin: "is_finished (heap ?s1 x)"
      by (simp add: heap_write_back is_finished_def)
    show ?thesis
    proof (cases "r = x")
      case True
      with fin have "heap (snd (cancel_loop M rs ?s1 (n + 1))) r = heap ?s1 r"
        by (simp add: cancel_loop_finished_untouched)
      with True False show ?thesis by (simp add: heap_write_back)
    next
      case False
      then have "heap ?s1 r = heap s r" by (simp add: heap_write_back)
      with Cons.IH [of ?s1 "n + 1"] \<open>\<not> is_finished (heap s x)\<close> show ?thesis by simp
    qed
  qed
qed

text \<open>
  With the invariant the references in the dictionary are distinct, and the loop cancels
  each unfinished object of the list once.
\<close>

lemma cancel_loop_state:
  assumes "task_id_stable M" "registry_ok s" "set rs \<subseteq> snd ` set (tasks s)" "distinct rs"
  shows "cancel_loop M rs s n =
     (n + int (length (filter (\<lambda>r. \<not> is_finished (heap s r)) rs)),
      s\<lparr>heap := (\<lambda>r. if r \<in> set rs \<and> \<not> is_finished (heap s r)
                      then cancel M (heap s r) else heap s r)\<rparr>)"
  using assms(2-)
proof (induction rs arbitrary: s n)
  case Nil
  then show ?case by simp
next
  case (Cons r rs)
  from Cons.prems(2) obtain k where k: "(k, r) \<in> set (tasks s)" by auto
  show ?case
  proof (cases "is_finished (heap s r)")
    case True
    have "(\<lambda>x. if x \<in> set (r # rs) \<and> \<not> is_finished (heap s x)
               then cancel M (heap s x) else heap s x) =
          (\<lambda>x. if x \<in> set rs \<and> \<not> is_finished (heap s x)
               then cancel M (heap s x) else heap s x)"
      using True by auto
    with True Cons.IH [of s n] Cons.prems show ?thesis by simp
  next
    case False
    let ?s1 = "call (cancel M) r s"
    have stable: "task_id (cancel M (heap s r)) = task_id (heap s r)"
      using assms(1) by (simp add: task_id_stable_def)
    have wb: "update_task_no_lock ?s1 r = ?s1"
      using Cons.prems(1) k stable by (rule write_back_same)
    have ok1: "registry_ok ?s1"
      using Cons.prems(1) stable by (rule registry_ok_call)
    have same: "heap ?s1 x = heap s x" if "x \<in> set rs" for x
      using that Cons.prems(3) by (auto simp: call_def)
    have len: "filter (\<lambda>x. \<not> is_finished (heap ?s1 x)) rs =
               filter (\<lambda>x. \<not> is_finished (heap s x)) rs"
      by (rule filter_cong) (simp_all add: same)
    have heap_eq: "(\<lambda>x. if x \<in> set rs \<and> \<not> is_finished (heap ?s1 x)
               then cancel M (heap ?s1 x) else heap ?s1 x) =
          (\<lambda>x. if x \<in> set (r # rs) \<and> \<not> is_finished (heap s x)
               then cancel M (heap s x) else heap s x)"
    proof
      fix x
      show "(if x \<in> set rs \<and> \<not> is_finished (heap ?s1 x)
               then cancel M (heap ?s1 x) else heap ?s1 x) =
          (if x \<in> set (r # rs) \<and> \<not> is_finished (heap s x)
               then cancel M (heap s x) else heap s x)"
        using False Cons.prems(3) same [of x] by (auto simp: call_def)
    qed
    have "cancel_loop M rs ?s1 (n + 1) =
      (n + 1 + int (length (filter (\<lambda>x. \<not> is_finished (heap ?s1 x)) rs)),
       ?s1\<lparr>heap := (\<lambda>x. if x \<in> set rs \<and> \<not> is_finished (heap ?s1 x)
                      then cancel M (heap ?s1 x) else heap ?s1 x)\<rparr>)"
      using ok1 Cons.prems(2,3) by (intro Cons.IH) (auto simp: call_def)
    with False wb len heap_eq show ?thesis
      by (simp add: call_def)
  qed
qed

lemma cancel_conversation_tasks_state:
  assumes "task_id_stable M" "registry_ok s"
  shows "cancel_conversation_tasks M s c =
     (int (length (filter (\<lambda>(k, r). conversation_id (heap s r) = c \<and> \<not> is_finished (heap s r))
             (tasks s))),
      s\<lparr>heap := (\<lambda>r. if r \<in> snd ` set (tasks s) \<and> conversation_id (heap s r) = c \<and>
                        \<not> is_finished (heap s r)
                      then cancel M (heap s r) else heap s r)\<rparr>)"
proof -
  let ?rs = "filter (\<lambda>r. conversation_id (heap s r) = c) (map snd (tasks s))"
  have "set ?rs \<subseteq> snd ` set (tasks s)" by auto
  moreover have "distinct ?rs"
    using registry_ok_distinct_refs [OF assms(2)] by simp
  ultimately have "cancel_loop M ?rs s 0 =
     (0 + int (length (filter (\<lambda>r. \<not> is_finished (heap s r)) ?rs)),
      s\<lparr>heap := (\<lambda>r. if r \<in> set ?rs \<and> \<not> is_finished (heap s r)
                      then cancel M (heap s r) else heap s r)\<rparr>)"
    using assms by (intro cancel_loop_state)
  moreover have "length (filter (\<lambda>r. \<not> is_finished (heap s r)) ?rs) =
     length (filter (\<lambda>(k, r). conversation_id (heap s r) = c \<and> \<not> is_finished (heap s r))
             (tasks s))"
    by (induction "tasks s" arbitrary: s) (auto simp: filter_map o_def split_def conj_commute)
  moreover have "(\<lambda>r. if r \<in> set ?rs \<and> \<not> is_finished (heap s r)
                      then cancel M (heap s r) else heap s r) =
     (\<lambda>r. if r \<in> snd ` set (tasks s) \<and> conversation_id (heap s r) = c \<and>
                        \<not> is_finished (heap s r)
                      then cancel M (heap s r) else heap s r)"
    by auto
  ultimately show ?thesis
    by (simp add: cancel_conversation_tasks_def)
qed

lemma cancel_conversation_tasks_lookup:
  assumes "task_id_stable M" "registry_ok s"
  shows "lookup (snd (cancel_conversation_tasks M s c)) tid =
     map_option (\<lambda>t. if conversation_id t = c \<and> \<not> is_finished t then cancel M t else t)
       (lookup s tid)"
proof (cases "get_task s tid")
  case None
  then show ?thesis
    by (simp add: cancel_conversation_tasks_state [OF assms] lookup_def get_task_def)
next
  case (Some r)
  then have "r \<in> snd ` set (tasks s)"
    by (force dest: get_task_entry)
  with Some show ?thesis
    by (simp add: cancel_conversation_tasks_state [OF assms] lookup_def get_task_def)
qed

lemma registry_ok_cancel_conversation_tasks:
  assumes "task_id_stable M" "registry_ok s"
  shows "registry_ok (snd (cancel_conversation_tasks M s c))"
proof -
  have "task_id (cancel M t) = task_id t" for t
    using assms(1) by (simp add: task_id_stable_def)
  with assms(2) show ?thesis
    by (simp add: cancel_conversation_tasks_state [OF assms] registry_ok_heap)
qed

lemma reachable_registry_ok:
  assumes "task_id_stable M" "reachable M s"
  shows "registry_ok s"
  using assms(2)
proof induction
  case (reach_init h)
  show ?case by (rule registry_ok_init)
next
  case (reach_update_task s task now)
  then show ?case by (simp add: registry_ok_update_task)
next
  case (reach_start_task s tid)
  with assms(1) show ?case by (simp add: registry_ok_start_task)
next
  case (reach_complete_task s tid)
  with assms(1) show ?case by (simp add: registry_ok_complete_task)
next
  case (reach_fail_task s tid msg)
  with assms(1) show ?case by (simp add: registry_ok_fail_task)
next
  case (reach_cancel_task s tid)
  with assms(1) show ?case by (simp add: registry_ok_cancel_task)
next
  case (reach_cancel_conversation_tasks s conv)
  with assms(1) show ?case by (simp add: registry_ok_cancel_conversation_tasks)
next
  case (reach_caller s h)
  then show ?case by (simp add: registry_ok_heap)
qed

text \<open>
  Claim C3. \<^verbatim>\<open>cancel_conversation_tasks\<close> returns the number of registered tasks that
  have the conversation id and are not finished when it is called. Afterwards each of
  these is the result of its \<^verbatim>\<open>cancel()\<close>, with status CANCELLED; a finished task of
  the conversation is as it was; a task of another conversation is as it was; and an id
  that was not registered is still not registered.
\<close>

theorem cancel_conversation_tasks_spec:
  assumes "transitions_ok M" "task_id_stable M" "registry_ok s"
  shows "fst (cancel_conversation_tasks M s c) =
           int (card {tid. \<exists>t. lookup s tid = Some t \<and> conversation_id t = c \<and>
                             \<not> is_finished t}) \<and>
         (\<forall>tid t. lookup s tid = Some t \<longrightarrow>
            (conversation_id t = c \<and> \<not> is_finished t \<longrightarrow>
               lookup (snd (cancel_conversation_tasks M s c)) tid = Some (cancel M t) \<and>
               status (cancel M t) = CANCELLED) \<and>
            (conversation_id t = c \<and> is_finished t \<longrightarrow>
               lookup (snd (cancel_conversation_tasks M s c)) tid = Some t) \<and>
            (conversation_id t \<noteq> c \<longrightarrow>
               lookup (snd (cancel_conversation_tasks M s c)) tid = Some t)) \<and>
         (\<forall>tid. lookup s tid = None \<longrightarrow>
            lookup (snd (cancel_conversation_tasks M s c)) tid = None)"
proof -
  have "fst (cancel_conversation_tasks M s c) =
     int (length (filter (\<lambda>(k, r). conversation_id (heap s r) = c \<and> \<not> is_finished (heap s r))
             (tasks s)))"
    by (simp add: cancel_conversation_tasks_state [OF assms(2,3)])
  also have "\<dots> = int (card {tid. \<exists>t. lookup s tid = Some t \<and> conversation_id t = c \<and>
                             \<not> is_finished t})"
    using count_entries [OF assms(3), of "\<lambda>t. conversation_id t = c \<and> \<not> is_finished t"]
    by simp
  finally have count: "fst (cancel_conversation_tasks M s c) =
      int (card {tid. \<exists>t. lookup s tid = Some t \<and> conversation_id t = c \<and>
                             \<not> is_finished t})" .
  have cancelled: "status (cancel M t) = CANCELLED" if "\<not> is_finished t" for t
    using assms(1) that by (simp add: transitions_ok_def)
  show ?thesis
    using count cancelled
    by (simp add: cancel_conversation_tasks_lookup [OF assms(2,3)])
qed

theorem cancel_conversation_tasks_spec_witness:
  "transitions_ok scenario_methods \<and> task_id_stable scenario_methods \<and>
   registry_ok scenario_state \<and>
   fst (cancel_conversation_tasks scenario_methods scenario_state ''conv-2'') =
     int (card {tid. \<exists>t. lookup scenario_state tid = Some t \<and> conversation_id t = ''conv-2'' \<and>
                       \<not> is_finished t}) \<and>
   fst (cancel_conversation_tasks scenario_methods scenario_state ''conv-2'') = 1 \<and>
   lookup (snd (cancel_conversation_tasks scenario_methods scenario_state ''conv-2'')) ''T2'' =
     Some (cancel scenario_methods (heap scenario_state 102)) \<and>
   status (cancel scenario_methods (heap scenario_state 102)) = CANCELLED \<and>
   lookup (snd (cancel_conversation_tasks scenario_methods scenario_state ''conv-2'')) ''T3'' =
     Some (heap scenario_state 103) \<and>
   lookup (snd (cancel_conversation_tasks scenario_methods scenario_state ''conv-2'')) ''T1'' =
     Some (heap scenario_state 101) \<and>
   lookup (snd (cancel_conversation_tasks scenario_methods scenario_state ''conv-2'')) ''T9'' =
     None"
proof -
  note spec = cancel_conversation_tasks_spec [OF scenario_transitions_ok
      scenario_task_id_stable scenario_registry_ok, of "''conv-2''"]
  have t2: "conversation_id (heap scenario_state 102) = ''conv-2'' \<and>
      \<not> is_finished (heap scenario_state 102)"
    by (simp add: scenario_eval)
  have t3: "conversation_id (heap scenario_state 103) = ''conv-2'' \<and>
      is_finished (heap scenario_state 103)"
    by (simp add: scenario_eval)
  have t1: "conversation_id (heap scenario_state 101) \<noteq> ''conv-2''"
    by (simp add: scenario_eval)
  from spec t1 t2 t3 scenario_lookup scenario_batch_count
    scenario_transitions_ok scenario_task_id_stable scenario_registry_ok
  show ?thesis by blast
qed

lemma cancel_loop_task_ids: "task_ids s \<subseteq> task_ids (snd (cancel_loop M rs s n))"
proof (induction rs arbitrary: s n)
  case Nil
  then show ?case by simp
next
  case (Cons x rs)
  let ?s1 = "update_task_no_lock (call (cancel M) x s) x"
  have "task_ids s \<subseteq> task_ids ?s1"
    by (auto simp: task_ids_def update_task_no_lock_def call_def dom_update)
  with Cons.IH [of ?s1 "n + 1"] Cons.IH [of s n] show ?case
    by (cases "is_finished (heap s x)") auto
qed

text \<open>
  Claim C10. The first \<^verbatim>\<open>cancel_conversation_tasks\<close> leaves every object that was
  registered with the conversation id finished, and every object that is registered with
  it afterwards is finished; no task id leaves the dictionary. So a second call for the
  same conversation, right after the first, returns 0 and leaves the state as it is. This
  needs no invariant of the dictionary.
\<close>

theorem cancel_conversation_tasks_twice:
  assumes "transitions_ok M"
  shows "cancel_conversation_tasks M (snd (cancel_conversation_tasks M s c)) c =
           (0, snd (cancel_conversation_tasks M s c)) \<and>
         (\<forall>r \<in> set (map snd (tasks s)). conversation_id (heap s r) = c \<longrightarrow>
            is_finished (heap (snd (cancel_conversation_tasks M s c)) r)) \<and>
         (\<forall>r \<in> set (map snd (tasks (snd (cancel_conversation_tasks M s c)))).
            conversation_id (heap (snd (cancel_conversation_tasks M s c)) r) = c \<longrightarrow>
            is_finished (heap (snd (cancel_conversation_tasks M s c)) r)) \<and>
         task_ids s \<subseteq> task_ids (snd (cancel_conversation_tasks M s c))"
proof -
  let ?rs = "filter (\<lambda>t. conversation_id (heap s t) = c) (map snd (tasks s))"
  let ?s' = "snd (cancel_loop M ?rs s 0)"
  have s': "snd (cancel_conversation_tasks M s c) = ?s'"
    by (simp add: cancel_conversation_tasks_def)
  have before: "is_finished (heap ?s' r)"
    if "r \<in> set (map snd (tasks s))" "conversation_id (heap s r) = c" for r
  proof -
    from that have "r \<in> set ?rs" by simp
    with assms show ?thesis by (rule cancel_loop_all_finished)
  qed
  have after: "is_finished (heap ?s' r)"
    if "r \<in> set (map snd (tasks ?s'))" "conversation_id (heap ?s' r) = c" for r
  proof (cases "r \<in> set ?rs")
    case True
    with assms show ?thesis by (rule cancel_loop_all_finished)
  next
    case False
    then have "heap ?s' r = heap s r"
      by (rule cancel_loop_outside_untouched)
    moreover from that(1) False have "r \<in> snd ` set (tasks s)"
      using cancel_loop_values [of M ?rs s 0] by auto
    ultimately have "r \<in> set ?rs"
      using that(2) by auto
    with False show ?thesis by simp
  qed
  then have "\<forall>r \<in> set (filter (\<lambda>t. conversation_id (heap ?s' t) = c) (map snd (tasks ?s'))).
      is_finished (heap ?s' r)"
    by auto
  then have "cancel_loop M (filter (\<lambda>t. conversation_id (heap ?s' t) = c) (map snd (tasks ?s')))
      ?s' 0 = (0, ?s')"
    by (rule cancel_loop_noop)
  then have twice: "cancel_conversation_tasks M ?s' c = (0, ?s')"
    by (simp add: cancel_conversation_tasks_def)
  have ids: "task_ids s \<subseteq> task_ids ?s'"
    by (rule cancel_loop_task_ids)
  show ?thesis
    unfolding s' using twice before after ids by blast
qed

theorem cancel_conversation_tasks_twice_witness:
  "transitions_ok scenario_methods \<and>
   fst (cancel_conversation_tasks scenario_methods scenario_state ''conv-2'') = 1 \<and>
   cancel_conversation_tasks scenario_methods
     (snd (cancel_conversation_tasks scenario_methods scenario_state ''conv-2'')) ''conv-2'' =
   (0, snd (cancel_conversation_tasks scenario_methods scenario_state ''conv-2'')) \<and>
   102 \<in> set (map snd (tasks scenario_state)) \<and>
   conversation_id (heap scenario_state 102) = ''conv-2'' \<and>
   \<not> is_finished (heap scenario_state 102) \<and>
   is_finished (heap (snd (cancel_conversation_tasks scenario_methods scenario_state ''conv-2''))
     102) \<and>
   103 \<in> set (map snd (tasks scenario_state)) \<and>
   conversation_id (heap scenario_state 103) = ''conv-2'' \<and>
   is_finished (heap (snd (cancel_conversation_tasks scenario_methods scenario_state ''conv-2''))
     103) \<and>
   task_ids scenario_state \<subseteq>
     task_ids (snd (cancel_conversation_tasks scenario_methods scenario_state ''conv-2''))"
proof -
  note spec = cancel_conversation_tasks_twice [OF scenario_transitions_ok,
      of scenario_state "''conv-2''"]
  have t2: "102 \<in> set (map snd (tasks scenario_state))"
    "conversation_id (heap scenario_state 102) = ''conv-2''"
    "\<not> is_finished (heap scenario_state 102)"
    by (simp_all add: scenario_eval)
  have t3: "103 \<in> set (map snd (tasks scenario_state))"
    "conversation_id (heap scenario_state 103) = ''conv-2''"
    by (simp_all add: scenario_eval)
  from spec t2 t3 scenario_transitions_ok scenario_batch_count
  show ?thesis by blast
qed

subsection \<open>Finished tasks\<close>

text \<open>
  Claim C4. On a task that is COMPLETED, FAILED or CANCELLED the four transition
  operations return false and change nothing. In a registry that satisfies the invariant,
  with methods that leave the \<^verbatim>\<open>task_id\<close> alone, the task found under its id is also
  the same after a transition operation on any id \<open>tid'\<close> and after a batch cancellation of
  any conversation.
\<close>

theorem terminal_sticky:
  assumes "lookup s tid = Some t" "is_finished t"
  shows "start_task M s tid = (False, s) \<and>
         complete_task M s tid = (False, s) \<and>
         fail_task M s tid msg = (False, s) \<and>
         cancel_task M s tid = (False, s) \<and>
         (task_id_stable M \<and> registry_ok s \<longrightarrow>
            lookup (snd (start_task M s tid')) tid = Some t \<and>
            lookup (snd (complete_task M s tid')) tid = Some t \<and>
            lookup (snd (fail_task M s tid' msg)) tid = Some t \<and>
            lookup (snd (cancel_task M s tid')) tid = Some t \<and>
            lookup (snd (cancel_conversation_tasks M s c)) tid = Some t)"
proof -
  from assms obtain r where r: "get_task s tid = Some r" "heap s r = t"
    by (auto dest: lookup_SomeD)
  have not_pending: "status t \<noteq> PENDING"
    using assms(2) by (auto simp: is_finished_def)
  have fails: "start_task M s tid = (False, s)" "complete_task M s tid = (False, s)"
    "fail_task M s tid msg = (False, s)" "cancel_task M s tid = (False, s)"
    using r assms(2) not_pending
    by (simp_all add: start_task_def complete_task_def fail_task_def cancel_task_def)
  have others: "lookup (snd (start_task M s tid')) tid = Some t \<and>
            lookup (snd (complete_task M s tid')) tid = Some t \<and>
            lookup (snd (fail_task M s tid' msg)) tid = Some t \<and>
            lookup (snd (cancel_task M s tid')) tid = Some t \<and>
            lookup (snd (cancel_conversation_tasks M s c)) tid = Some t"
    if ok: "task_id_stable M" "registry_ok s"
  proof (cases "tid' = tid")
    case True
    with fails assms(1,2) show ?thesis
      by (simp add: cancel_conversation_tasks_lookup [OF ok])
  next
    case False
    have "lookup (call f r' s) tid = Some t" if "get_task s tid' = Some r'" for f r'
      using lookup_call [OF ok(2) that, of f tid] False assms(1) by simp
    with assms show ?thesis
      by (simp add: start_task_state [OF ok] complete_task_state [OF ok]
          fail_task_state [OF ok] cancel_task_state [OF ok]
          cancel_conversation_tasks_lookup [OF ok] split: option.splits)
  qed
  from fails others show ?thesis by blast
qed

theorem terminal_sticky_witness:
  "lookup scenario_state ''T3'' = Some (heap scenario_state 103) \<and>
   is_finished (heap scenario_state 103) \<and>
   task_id_stable scenario_methods \<and> registry_ok scenario_state \<and>
   start_task scenario_methods scenario_state ''T3'' = (False, scenario_state) \<and>
   complete_task scenario_methods scenario_state ''T3'' = (False, scenario_state) \<and>
   fail_task scenario_methods scenario_state ''T3'' ''boom'' = (False, scenario_state) \<and>
   cancel_task scenario_methods scenario_state ''T3'' = (False, scenario_state) \<and>
   lookup (snd (start_task scenario_methods scenario_state ''T2'')) ''T3'' =
     Some (heap scenario_state 103) \<and>
   lookup (snd (complete_task scenario_methods scenario_state ''T2'')) ''T3'' =
     Some (heap scenario_state 103) \<and>
   lookup (snd (fail_task scenario_methods scenario_state ''T2'' ''boom'')) ''T3'' =
     Some (heap scenario_state 103) \<and>
   lookup (snd (cancel_task scenario_methods scenario_state ''T2'')) ''T3'' =
     Some (heap scenario_state 103) \<and>
   lookup (snd (cancel_conversation_tasks scenario_methods scenario_state ''conv-2'')) ''T3'' =
     Some (heap scenario_state 103)"
proof -
  have found: "lookup scenario_state ''T3'' = Some (heap scenario_state 103)"
    by (simp add: scenario_eval)
  have finished: "is_finished (heap scenario_state 103)"
    by (simp add: scenario_eval)
  from terminal_sticky [OF found finished, of scenario_methods "''boom''" "''T2''" "''conv-2''"]
    found finished scenario_task_id_stable scenario_registry_ok
  show ?thesis by blast
qed

subsection \<open>\<^verbatim>\<open>update_task\<close> and the timestamp\<close>

text \<open>
  Claim C5. \<^verbatim>\<open>update_task\<close> files the object under its \<^verbatim>\<open>task_id\<close>, whatever was
  there, and a lookup of that id then finds the task with the same \<^verbatim>\<open>task_id\<close> and with
  \<^verbatim>\<open>updated_at\<close> equal to the clock reading taken in the call, which is not before the
  time \<open>called_at\<close> of the call on a clock that does not run backwards in between.
\<close>

theorem update_task_spec:
  assumes "called_at \<le> now"
  shows "get_task (update_task s task now) (task_id (heap s task)) = Some task \<and>
         lookup (update_task s task now) (task_id (heap s task)) =
           Some ((heap s task)\<lparr>updated_at := now\<rparr>) \<and>
         (\<exists>t'. lookup (update_task s task now) (task_id (heap s task)) = Some t' \<and>
               task_id t' = task_id (heap s task) \<and> updated_at t' = now \<and>
               called_at \<le> updated_at t')"
  using assms
  by (simp add: lookup_def get_task_def update_task_def update_task_no_lock_def call_def
      update_conv')

theorem update_task_spec_witness:
  "(9::int) \<le> 10 \<and>
   get_task (update_task (init scenario_heap) 101 10) ''T1'' = Some 101 \<and>
   lookup (update_task (init scenario_heap) 101 10) ''T1'' =
     Some \<lparr>task_id = ''T1'', conversation_id = ''conv-1'', status = PENDING, updated_at = 10\<rparr>"
  using update_task_spec [of 9 10 "init scenario_heap" 101]
  by (simp add: init_def scenario_heap_def)

text \<open>
  Claim C6. \<^verbatim>\<open>update_task\<close> sets \<^verbatim>\<open>updated_at\<close> to the clock reading. The write path
  \<^verbatim>\<open>_update_task_no_lock\<close> changes no object. After a transition operation or a batch
  cancellation every object is either as it was or what its own transition method made of
  it: the registry writes no field of its own, \<^verbatim>\<open>updated_at\<close> included.
\<close>

theorem updated_at_written_by:
  assumes "transitions_ok M"
  shows "updated_at (heap (update_task s task now) task) = now \<and>
         heap (update_task_no_lock s task) = heap s \<and>
         (heap (snd (start_task M s tid)) r = heap s r \<or>
          heap (snd (start_task M s tid)) r = start M (heap s r)) \<and>
         (heap (snd (complete_task M s tid)) r = heap s r \<or>
          heap (snd (complete_task M s tid)) r = complete M (heap s r)) \<and>
         (heap (snd (fail_task M s tid msg)) r = heap s r \<or>
          heap (snd (fail_task M s tid msg)) r = fail M msg (heap s r)) \<and>
         (heap (snd (cancel_task M s tid)) r = heap s r \<or>
          heap (snd (cancel_task M s tid)) r = cancel M (heap s r)) \<and>
         (heap (snd (cancel_conversation_tasks M s c)) r = heap s r \<or>
          heap (snd (cancel_conversation_tasks M s c)) r = cancel M (heap s r))"
proof -
  have "updated_at (heap (update_task s task now) task) = now"
    by (simp add: update_task_def heap_write_back)
  moreover have "heap (update_task_no_lock s task) = heap s"
    by (rule heap_update_task_no_lock)
  moreover have "heap (snd (start_task M s tid)) r = heap s r \<or>
          heap (snd (start_task M s tid)) r = start M (heap s r)"
    by (simp add: start_task_def heap_write_back split: option.splits)
  moreover have "heap (snd (complete_task M s tid)) r = heap s r \<or>
          heap (snd (complete_task M s tid)) r = complete M (heap s r)"
    by (simp add: complete_task_def heap_write_back split: option.splits)
  moreover have "heap (snd (fail_task M s tid msg)) r = heap s r \<or>
          heap (snd (fail_task M s tid msg)) r = fail M msg (heap s r)"
    by (simp add: fail_task_def heap_write_back split: option.splits)
  moreover have "heap (snd (cancel_task M s tid)) r = heap s r \<or>
          heap (snd (cancel_task M s tid)) r = cancel M (heap s r)"
    by (simp add: cancel_task_def heap_write_back split: option.splits)
  moreover have "heap (snd (cancel_conversation_tasks M s c)) r = heap s r \<or>
          heap (snd (cancel_conversation_tasks M s c)) r = cancel M (heap s r)"
    unfolding cancel_conversation_tasks_def using assms by (rule cancel_loop_objects)
  ultimately show ?thesis by blast
qed

theorem updated_at_written_by_witness:
  "transitions_ok scenario_methods \<and>
   updated_at (heap (update_task scenario_state 101 20) 101) = 20 \<and>
   heap (update_task_no_lock scenario_state 101) = heap scenario_state \<and>
   heap (snd (start_task scenario_methods scenario_state ''T1'')) 101 =
     start scenario_methods (heap scenario_state 101) \<and>
   heap (snd (start_task scenario_methods scenario_state ''T1'')) 102 = heap scenario_state 102 \<and>
   heap (snd (cancel_conversation_tasks scenario_methods scenario_state ''conv-2'')) 102 =
     cancel scenario_methods (heap scenario_state 102) \<and>
   heap (snd (cancel_conversation_tasks scenario_methods scenario_state ''conv-2'')) 103 =
     heap scenario_state 103"
proof -
  note spec = updated_at_written_by [OF scenario_transitions_ok, of scenario_state 101 20]
  have "heap (snd (start_task scenario_methods scenario_state ''T1'')) 101 \<noteq>
      heap scenario_state 101"
    by (simp add: start_task_def get_task_def scenario_eval heap_write_back)
  moreover have "heap (snd (start_task scenario_methods scenario_state ''T1'')) 102 \<noteq>
      start scenario_methods (heap scenario_state 102)"
    by (simp add: start_task_def get_task_def scenario_eval heap_write_back)
  moreover have
    "heap (snd (cancel_conversation_tasks scenario_methods scenario_state ''conv-2'')) 102 \<noteq>
      heap scenario_state 102"
    by (simp add: cancel_conversation_tasks_def scenario_eval heap_write_back call_def
        update_task_no_lock_def)
  moreover have
    "heap (snd (cancel_conversation_tasks scenario_methods scenario_state ''conv-2'')) 103 \<noteq>
      cancel scenario_methods (heap scenario_state 103)"
    by (simp add: cancel_conversation_tasks_def scenario_eval heap_write_back call_def
        update_task_no_lock_def)
  ultimately show ?thesis
    using spec [of "''T1''" 101] spec [of "''T1''" 102] spec [of _ 102 _ "''conv-2''"]
      spec [of _ 103 _ "''conv-2''"] scenario_transitions_ok
    by blast
qed

subsection \<open>Failure is a flag\<close>

text \<open>
  Claim C7. The operations have no error result. An unknown id and a task in the wrong
  state give the same answer from each transition operation, false and the state as it
  was, and a conversation whose registered tasks are all finished (or that has none) gives
  the count 0 and the state as it was.
\<close>

theorem failure_is_a_flag:
  "(lookup s tid = None \<longrightarrow>
      start_task M s tid = (False, s) \<and> complete_task M s tid = (False, s) \<and>
      fail_task M s tid msg = (False, s) \<and> cancel_task M s tid = (False, s)) \<and>
   (\<forall>t. lookup s tid = Some t \<and> status t \<noteq> PENDING \<longrightarrow> start_task M s tid = (False, s)) \<and>
   (\<forall>t. lookup s tid = Some t \<and> is_finished t \<longrightarrow>
      complete_task M s tid = (False, s) \<and> fail_task M s tid msg = (False, s) \<and>
      cancel_task M s tid = (False, s)) \<and>
   ((\<forall>r \<in> set (map snd (tasks s)). conversation_id (heap s r) = c \<longrightarrow> is_finished (heap s r))
      \<longrightarrow> cancel_conversation_tasks M s c = (0, s))"
proof -
  have batch: "cancel_conversation_tasks M s c = (0, s)"
    if "\<forall>r \<in> set (map snd (tasks s)). conversation_id (heap s r) = c \<longrightarrow> is_finished (heap s r)"
    unfolding cancel_conversation_tasks_def using that by (intro cancel_loop_noop) auto
  show ?thesis
    using batch
    by (auto simp: lookup_def start_task_def complete_task_def fail_task_def cancel_task_def
        split: option.splits)
qed

theorem failure_is_a_flag_witness:
  "lookup scenario_state ''T9'' = None \<and>
   start_task scenario_methods scenario_state ''T9'' = (False, scenario_state) \<and>
   complete_task scenario_methods scenario_state ''T9'' = (False, scenario_state) \<and>
   fail_task scenario_methods scenario_state ''T9'' ''boom'' = (False, scenario_state) \<and>
   cancel_task scenario_methods scenario_state ''T9'' = (False, scenario_state) \<and>
   start_task scenario_methods scenario_state ''T3'' = (False, scenario_state) \<and>
   complete_task scenario_methods scenario_state ''T3'' = (False, scenario_state) \<and>
   fail_task scenario_methods scenario_state ''T3'' ''boom'' = (False, scenario_state) \<and>
   cancel_task scenario_methods scenario_state ''T3'' = (False, scenario_state) \<and>
   cancel_conversation_tasks scenario_methods (update_task (init scenario_heap) 103 12) ''conv-2'' =
     (0, update_task (init scenario_heap) 103 12)"
proof -
  have missing: "lookup scenario_state ''T9'' = None"
    by (simp add: scenario_eval)
  have finished: "lookup scenario_state ''T3'' = Some (heap scenario_state 103) \<and>
      status (heap scenario_state 103) \<noteq> PENDING \<and> is_finished (heap scenario_state 103)"
    by (simp add: scenario_eval)
  have all_finished: "\<forall>r \<in> set (map snd (tasks (update_task (init scenario_heap) 103 12))).
      conversation_id (heap (update_task (init scenario_heap) 103 12) r) = ''conv-2'' \<longrightarrow>
      is_finished (heap (update_task (init scenario_heap) 103 12) r)"
    by (simp add: update_task_def update_task_no_lock_def call_def init_def scenario_heap_def
        is_finished_def)
  from failure_is_a_flag [of scenario_state "''T9''" scenario_methods "''boom''"]
    failure_is_a_flag [of scenario_state "''T3''" scenario_methods "''boom''"]
    failure_is_a_flag [of "update_task (init scenario_heap) 103 12" _ scenario_methods _ "''conv-2''"]
    missing finished all_finished
  show ?thesis by blast
qed

subsection \<open>The task ids of the dictionary\<close>

lemma task_ids_call: "task_ids (call f r s) = task_ids s"
  by (simp add: task_ids_def call_def)

text \<open>
  Claim C9. In a registry that satisfies the invariant, with methods that leave the
  \<^verbatim>\<open>task_id\<close> alone, the transition operations and the batch cancellation keep the
  set of task ids of the dictionary; \<^verbatim>\<open>update_task\<close> adds the \<^verbatim>\<open>task_id\<close> of its
  argument and removes none.
\<close>

theorem task_ids_preserved:
  assumes "task_id_stable M" "registry_ok s"
  shows "task_ids (snd (start_task M s tid)) = task_ids s \<and>
         task_ids (snd (complete_task M s tid)) = task_ids s \<and>
         task_ids (snd (fail_task M s tid msg)) = task_ids s \<and>
         task_ids (snd (cancel_task M s tid)) = task_ids s \<and>
         task_ids (snd (cancel_conversation_tasks M s c)) = task_ids s \<and>
         task_ids (update_task s r now) = insert (task_id (heap s r)) (task_ids s)"
proof -
  have "task_ids (update_task s r now) = insert (task_id (heap s r)) (task_ids s)"
    by (auto simp: task_ids_def update_task_def update_task_no_lock_def call_def dom_update)
  then show ?thesis
    by (simp add: start_task_state [OF assms] complete_task_state [OF assms]
          fail_task_state [OF assms] cancel_task_state [OF assms]
          cancel_conversation_tasks_state [OF assms] task_ids_call split: option.splits)
       (simp add: task_ids_def)
qed

theorem task_ids_preserved_witness:
  "task_id_stable scenario_methods \<and> registry_ok scenario_state \<and>
   task_ids (snd (start_task scenario_methods scenario_state ''T1'')) = {''T1'', ''T2'', ''T3''} \<and>
   task_ids (snd (complete_task scenario_methods scenario_state ''T1'')) = {''T1'', ''T2'', ''T3''} \<and>
   task_ids (snd (fail_task scenario_methods scenario_state ''T1'' ''boom'')) =
     {''T1'', ''T2'', ''T3''} \<and>
   task_ids (snd (cancel_task scenario_methods scenario_state ''T1'')) = {''T1'', ''T2'', ''T3''} \<and>
   task_ids (snd (cancel_conversation_tasks scenario_methods scenario_state ''conv-2'')) =
     {''T1'', ''T2'', ''T3''} \<and>
   task_ids (update_task scenario_state 7 20) = {''T0'', ''T1'', ''T2'', ''T3''}"
proof -
  have ids: "task_ids scenario_state = {''T1'', ''T2'', ''T3''}"
    by (simp add: task_ids_def scenario_tasks)
  have new: "task_id (heap scenario_state 7) = ''T0''"
    by (simp add: scenario_state_def scenario_heap_def update_task_def update_task_no_lock_def
        call_def init_def)
  from task_ids_preserved [OF scenario_task_id_stable scenario_registry_ok,
      of "''T1''" "''boom''" "''conv-2''" 7 20]
    ids new scenario_task_id_stable scenario_registry_ok
  show ?thesis by simp
qed

end
